theory Spec2Isabelle
  imports Main "HOL-Library.AList"
begin

section \<open>Values carried by messages\<close>

text \<open>
  A payload field (\<open>data.uuid\<close>, \<open>data.contestantId\<close>, a catalog row's \<open>id\<close>) is a JSON
  string or a JSON integer. Other JSON values (null, objects, fractions, a missing field)
  are outside the model.
\<close>

datatype jsval = JStr string | JNum int

fun show_nat :: "nat \<Rightarrow> string" where
  "show_nat n =
     (if n < 10 then [''0123456789'' ! n]
      else show_nat (n div 10) @ [''0123456789'' ! (n mod 10)])"

declare show_nat.simps [simp del]

definition show_int :: "int \<Rightarrow> string" where
  "show_int i = (if i < 0 then CHR ''-'' # show_nat (nat (- i)) else show_nat (nat i))"

text \<open>\<open>String(v)\<close>: what a template literal and the store client write for a value.\<close>

fun to_str :: "jsval \<Rightarrow> string" where
  "to_str (JStr s) = s"
| "to_str (JNum i) = show_int i"

text \<open>JavaScript truthiness: the empty string and the number 0 are falsy.\<close>

fun truthy :: "jsval \<Rightarrow> bool" where
  "truthy (JStr s) = (s \<noteq> [])"
| "truthy (JNum i) = (i \<noteq> 0)"

text \<open>
  \<open>prevContestantId === contestantId\<close>: the left side comes from \<open>redis.get\<close> and is a
  string or null; strict equality with a number is always false.
\<close>

fun strict_eq :: "string option \<Rightarrow> jsval \<Rightarrow> bool" where
  "strict_eq (Some p) (JStr c) = (p = c)"
| "strict_eq _ _ = False"

record contestant =
  c_id :: jsval
  c_name :: string

type_synonym conn = nat

text \<open>
  The parsed envelope \<open>{event, data}\<close>. \<open>Unhandled e\<close> is an event name with no entry in
  \<open>eventHandlers\<close>. The token of \<open>identify\<close> is optional.
\<close>

datatype request =
    Identify jsval "string option"
  | Vote jsval
  | GetVoteCounts
  | GetMyVote
  | NextRound
  | ResetVotes
  | Unhandled string

datatype msg =
    Welcome jsval "contestant list" nat bool
  | VoteSuccess jsval
  | VoteUpdate "(string \<times> int) list"
  | RoundUpdate nat
  | MyVote "string option"
  | ErrorMsg string

section \<open>The server state\<close>

text \<open>
  The two key families of the store are kept apart, since no key of one can be a key of
  the other (after \<open>votes:round:<digits>:\<close> one continues with \<open>user:\<close>, the other with
  \<open>contestant:\<close>), and the round and the id can be read back from a key:
  \<^item> \<open>votes\<close>: key \<open>votes:round:R:user:U\<close>, holding the chosen contestant id and the time
    at which the key expires (it was written with \<open>EX 3600\<close>);
  \<^item> \<open>counts\<close>: key \<open>votes:round:R:contestant:C\<close>, holding the integer that \<open>INCR\<close> and
    \<open>DECR\<close> maintain; these keys have no expiry. The 64-bit range of the store's
    counters is not modelled.
  \<open>currentRound\<close> is a natural number (a JavaScript number is exact up to \<open>2^53\<close>).
  \<open>sent\<close> is the log of every frame written to a socket, in order. \<open>avail\<close> is the
  environment: how many more store calls succeed before the store becomes unreachable
  (\<open>None\<close>: it never fails). \<open>rejections\<close> counts the promises that rejected with
  nobody awaiting them.
\<close>

record world =
  votes :: "((nat \<times> string) \<times> string \<times> nat) list"
  counts :: "nat \<times> string \<rightharpoonup> int"
  currentRound :: nat
  contestants :: "contestant list"
  users :: "conn \<rightharpoonup> jsval"
  isAdmin :: "conn \<Rightarrow> bool"
  clients :: "conn list"
  sent :: "(conn \<times> msg) list"
  avail :: "nat option"
  rejections :: nat

definition init_world :: "contestant list \<Rightarrow> world" where
  "init_world cs =
     \<lparr>votes = [], counts = Map.empty, currentRound = 0, contestants = cs,
      users = Map.empty, isAdmin = (\<lambda>_. False), clients = [], sent = [],
      avail = None, rejections = 0\<rparr>"

section \<open>Store calls\<close>

text \<open>An awaited call either rejects, leaving the state it reached, or resolves.\<close>

datatype 'a promise = Rejects world | Resolves 'a world

definition await :: "'a promise \<Rightarrow> ('a \<Rightarrow> world \<Rightarrow> 'b promise) \<Rightarrow> 'b promise" where
  "await p f = (case p of Rejects s \<Rightarrow> Rejects s | Resolves a s \<Rightarrow> f a s)"

definition store_call :: "world \<Rightarrow> world option" where
  "store_call s =
     (case avail s of
        None \<Rightarrow> Some s
      | Some 0 \<Rightarrow> None
      | Some (Suc n) \<Rightarrow> Some (s\<lparr>avail := Some n\<rparr>))"

text \<open>A key that has reached its expiry time is gone.\<close>

definition vote_lookup :: "nat \<Rightarrow> ((nat \<times> string) \<times> string \<times> nat) list \<Rightarrow> nat \<times> string \<Rightarrow> string option" where
  "vote_lookup now vs k =
     (case map_of vs k of
        None \<Rightarrow> None
      | Some (v, e) \<Rightarrow> if now < e then Some v else None)"

text \<open>\<open>parseInt(count || '0', 10)\<close> on the reply of \<open>GET\<close> for a counter key.\<close>

definition parse_count :: "int option \<Rightarrow> int" where
  "parse_count count = (case count of None \<Rightarrow> 0 | Some n \<Rightarrow> n)"

definition redis_get_user :: "nat \<Rightarrow> nat \<times> string \<Rightarrow> world \<Rightarrow> string option promise" where
  "redis_get_user now k s =
     (case store_call s of
        None \<Rightarrow> Rejects s
      | Some s' \<Rightarrow> Resolves (vote_lookup now (votes s') k) s')"

definition redis_set_user :: "nat \<Rightarrow> nat \<times> string \<Rightarrow> string \<Rightarrow> world \<Rightarrow> unit promise" where
  "redis_set_user now k v s =
     (case store_call s of
        None \<Rightarrow> Rejects s
      | Some s' \<Rightarrow> Resolves () (s'\<lparr>votes := AList.update k (v, now + 60 * 60) (votes s')\<rparr>))"

definition redis_get_count :: "nat \<times> string \<Rightarrow> world \<Rightarrow> int option promise" where
  "redis_get_count k s =
     (case store_call s of
        None \<Rightarrow> Rejects s
      | Some s' \<Rightarrow> Resolves (counts s' k) s')"

definition redis_incr :: "nat \<times> string \<Rightarrow> world \<Rightarrow> unit promise" where
  "redis_incr k s =
     (case store_call s of
        None \<Rightarrow> Rejects s
      | Some s' \<Rightarrow> Resolves () (s'\<lparr>counts := (counts s')(k \<mapsto> parse_count (counts s' k) + 1)\<rparr>))"

definition redis_decr :: "nat \<times> string \<Rightarrow> world \<Rightarrow> unit promise" where
  "redis_decr k s =
     (case store_call s of
        None \<Rightarrow> Rejects s
      | Some s' \<Rightarrow> Resolves () (s'\<lparr>counts := (counts s')(k \<mapsto> parse_count (counts s' k) - 1)\<rparr>))"

definition redis_del :: "nat \<times> string \<Rightarrow> world \<Rightarrow> unit promise" where
  "redis_del k s =
     (case store_call s of
        None \<Rightarrow> Rejects s
      | Some s' \<Rightarrow> Resolves () (s'\<lparr>counts := (counts s')(k := None)\<rparr>))"

section \<open>Sending\<close>

definition send :: "conn \<Rightarrow> msg \<Rightarrow> world \<Rightarrow> world" where
  "send ws m s = s\<lparr>sent := sent s @ [(ws, m)]\<rparr>"

text \<open>\<open>clients\<close> holds the sockets of \<open>wss.clients\<close> whose state is open.\<close>

definition broadcast :: "msg \<Rightarrow> world \<Rightarrow> world" where
  "broadcast m s = s\<lparr>sent := sent s @ map (\<lambda>client. (client, m)) (clients s)\<rparr>"

text \<open>
  A call whose promise nobody awaits (\<open>broadcastVoteCounts()\<close> in the handlers, and the
  \<open>async\<close> listener itself): a rejection is only counted.
\<close>

definition detached :: "'a promise \<Rightarrow> world" where
  "detached p =
     (case p of
        Rejects s \<Rightarrow> s\<lparr>rejections := rejections s + 1\<rparr>
      | Resolves _ s \<Rightarrow> s)"

section \<open>Handlers\<close>

text \<open>The loop over the catalog shared by \<open>broadcastVoteCounts\<close> and \<open>get_vote_counts\<close>.\<close>

fun collectVoteCounts :: "contestant list \<Rightarrow> (string \<times> int) list \<Rightarrow> world \<Rightarrow> (string \<times> int) list promise" where
  "collectVoteCounts [] voteCounts s = Resolves voteCounts s"
| "collectVoteCounts (c # cs) voteCounts s =
     (case redis_get_count (currentRound s, to_str (c_id c)) s of
        Rejects s' \<Rightarrow> Rejects s'
      | Resolves count s' \<Rightarrow>
          collectVoteCounts cs (voteCounts @ [(to_str (c_id c), parse_count count)]) s')"

definition broadcastVoteCounts :: "world \<Rightarrow> unit promise" where
  "broadcastVoteCounts s =
     await (collectVoteCounts (contestants s) [] s)
       (\<lambda>voteCounts s'. Resolves () (broadcast (VoteUpdate voteCounts) s'))"

definition handleVote :: "nat \<Rightarrow> conn \<Rightarrow> jsval \<Rightarrow> jsval \<Rightarrow> world \<Rightarrow> unit promise" where
  "handleVote now ws contestantId uuid s =
     (if \<not> truthy uuid then Resolves () s
      else
        let voteKey = (currentRound s, to_str uuid) in
        await (redis_get_user now voteKey s) (\<lambda>prevContestantId s1.
          if strict_eq prevContestantId contestantId
          then Resolves () (send ws (VoteSuccess contestantId) s1)
          else
            await (case prevContestantId of
                     None \<Rightarrow> Resolves () s1
                   | Some p \<Rightarrow>
                       if p \<noteq> [] then redis_decr (currentRound s1, p) s1
                       else Resolves () s1) (\<lambda>_ s2.
            await (redis_set_user now voteKey (to_str contestantId) s2) (\<lambda>_ s3.
            await (redis_incr (currentRound s3, to_str contestantId) s3) (\<lambda>_ s4.
              Resolves ()
                (detached (broadcastVoteCounts (send ws (VoteSuccess contestantId) s4))))))))"

definition get_vote_counts :: "conn \<Rightarrow> world \<Rightarrow> unit promise" where
  "get_vote_counts ws s =
     await (collectVoteCounts (contestants s) [] s)
       (\<lambda>voteCounts s'. Resolves () (send ws (VoteUpdate voteCounts) s'))"

definition get_my_vote :: "nat \<Rightarrow> conn \<Rightarrow> jsval \<Rightarrow> world \<Rightarrow> unit promise" where
  "get_my_vote now ws uuid s =
     await (redis_get_user now (currentRound s, to_str uuid) s)
       (\<lambda>contestantId s'. Resolves () (send ws (MyVote contestantId) s'))"

definition next_round :: "world \<Rightarrow> unit promise" where
  "next_round s =
     (let s1 = s\<lparr>currentRound := currentRound s + 1\<rparr>;
          s2 = broadcast (RoundUpdate (currentRound s1)) s1
      in Resolves () (detached (broadcastVoteCounts s2)))"

text \<open>The inner loop of \<open>reset_votes\<close>: one \<open>DEL\<close> per catalog row.\<close>

fun del_contestants :: "nat \<Rightarrow> contestant list \<Rightarrow> world \<Rightarrow> unit promise" where
  "del_contestants round [] s = Resolves () s"
| "del_contestants round (c # cs) s =
     (case redis_del (round, to_str (c_id c)) s of
        Rejects s' \<Rightarrow> Rejects s'
      | Resolves _ s' \<Rightarrow> del_contestants round cs s')"

text \<open>The outer loop, over the rounds still to visit.\<close>

fun del_rounds :: "nat list \<Rightarrow> world \<Rightarrow> unit promise" where
  "del_rounds [] s = Resolves () s"
| "del_rounds (round # rounds) s =
     (case del_contestants round (contestants s) s of
        Rejects s' \<Rightarrow> Rejects s'
      | Resolves _ s' \<Rightarrow> del_rounds rounds s')"

definition reset_votes :: "world \<Rightarrow> unit promise" where
  "reset_votes s =
     await (del_rounds [0 ..< currentRound s + 1] s)
       (\<lambda>_ s'. Resolves () (detached (broadcastVoteCounts s')))"

section \<open>The connection\<close>

text \<open>
  \<open>verify t\<close> is the credential verifier: \<open>None\<close> when \<open>jwtVerify\<close> throws, otherwise
  whether the payload's \<open>admin\<close> field is truthy.
\<close>

definition identify :: "(string \<Rightarrow> bool option) \<Rightarrow> conn \<Rightarrow> jsval \<Rightarrow> string option \<Rightarrow> world \<Rightarrow> world" where
  "identify verify ws uuid token s =
     (let s1 = s\<lparr>users := (users s)(ws \<mapsto> uuid)\<rparr>;
          s2 = (case token of
                  None \<Rightarrow> s1
                | Some t \<Rightarrow>
                    if t \<noteq> [] then
                      (case verify t of
                         Some True \<Rightarrow> s1\<lparr>isAdmin := (isAdmin s1)(ws := True)\<rparr>
                       | _ \<Rightarrow> s1)
                    else s1)
      in send ws (Welcome uuid (contestants s2) (currentRound s2) (isAdmin s2 ws)) s2)"

text \<open>The \<open>message\<close> listener; \<open>None\<close> is a frame that \<open>JSON.parse\<close> rejects.\<close>

definition message_handler :: "(string \<Rightarrow> bool option) \<Rightarrow> nat \<Rightarrow> conn \<Rightarrow> request option \<Rightarrow> world \<Rightarrow> unit promise" where
  "message_handler verify now ws parsed s =
     (case parsed of
        None \<Rightarrow> Resolves () s
      | Some (Identify uuid token) \<Rightarrow> Resolves () (identify verify ws uuid token s)
      | Some req \<Rightarrow>
          (case users s ws of
             None \<Rightarrow> Resolves () s
           | Some uuid \<Rightarrow>
               if (req = NextRound \<or> req = ResetVotes) \<and> \<not> isAdmin s ws
               then Resolves () (send ws (ErrorMsg ''Unauthorized'') s)
               else
                 (case req of
                    Vote contestantId \<Rightarrow> handleVote now ws contestantId uuid s
                  | GetVoteCounts \<Rightarrow> get_vote_counts ws s
                  | GetMyVote \<Rightarrow> get_my_vote now ws uuid s
                  | NextRound \<Rightarrow> next_round s
                  | ResetVotes \<Rightarrow> reset_votes s
                  | _ \<Rightarrow> Resolves () s)))"

definition on_message :: "(string \<Rightarrow> bool option) \<Rightarrow> nat \<Rightarrow> conn \<Rightarrow> request option \<Rightarrow> world \<Rightarrow> world" where
  "on_message verify now ws parsed s = detached (message_handler verify now ws parsed s)"

definition on_connection :: "conn \<Rightarrow> world \<Rightarrow> world" where
  "on_connection ws s = s\<lparr>clients := clients s @ [ws], isAdmin := (isAdmin s)(ws := False)\<rparr>"

definition on_close :: "conn \<Rightarrow> world \<Rightarrow> world" where
  "on_close ws s = s\<lparr>users := (users s)(ws := None), clients := removeAll ws (clients s)\<rparr>"

datatype event = Connection conn | Message conn "request option" | Close conn

text \<open>Events are handled one at a time, each at its arrival time.\<close>

fun step :: "(string \<Rightarrow> bool option) \<Rightarrow> nat \<times> event \<Rightarrow> world \<Rightarrow> world" where
  "step verify (now, Connection ws) s = on_connection ws s"
| "step verify (now, Message ws parsed) s = on_message verify now ws parsed s"
| "step verify (now, Close ws) s = on_close ws s"

fun run :: "(string \<Rightarrow> bool option) \<Rightarrow> (nat \<times> event) list \<Rightarrow> world \<Rightarrow> world" where
  "run verify [] s = s"
| "run verify (e # es) s = run verify es (step verify e s)"

section \<open>Observations\<close>

text \<open>The count a reader gets for a round and a contestant id.\<close>

definition tally :: "world \<Rightarrow> nat \<Rightarrow> string \<Rightarrow> int" where
  "tally s r c = parse_count (counts s (r, c))"

definition getTally :: "world \<Rightarrow> nat \<Rightarrow> (string \<times> int) list" where
  "getTally s r = map (\<lambda>c. (to_str (c_id c), tally s r (to_str (c_id c)))) (contestants s)"

definition getMyVote :: "nat \<Rightarrow> world \<Rightarrow> nat \<Rightarrow> jsval \<Rightarrow> string option" where
  "getMyVote now s r uuid = vote_lookup now (votes s) (r, to_str uuid)"

text \<open>The vote records of round \<open>r\<close> for contestant \<open>c\<close> that have not expired at \<open>now\<close>.\<close>

definition active_votes :: "nat \<Rightarrow> world \<Rightarrow> nat \<Rightarrow> string \<Rightarrow> nat" where
  "active_votes now s r c =
     length (filter (\<lambda>((r', u), (v, e)). r' = r \<and> v = c \<and> now < e) (votes s))"

section \<open>Notions used in the proofs\<close>

text \<open>The state a call ends in, whether it resolved or rejected.\<close>

definition world_of :: "'a promise \<Rightarrow> world" where
  "world_of p = (case p of Rejects s \<Rightarrow> s | Resolves _ s \<Rightarrow> s)"

fun is_error :: "msg \<Rightarrow> bool" where
  "is_error (ErrorMsg _) = True"
| "is_error _ = False"

definition error_frames :: "world \<Rightarrow> (conn \<times> msg) list" where
  "error_frames s = filter (\<lambda>(c, m). is_error m) (sent s)"

text \<open>
  \<open>kept s s'\<close>: going from \<open>s\<close> to \<open>s'\<close> changed no role, no session, no catalog row,
  and wrote no \<open>error\<close> frame. \<open>store_kept\<close>: the store and the round are the same.
\<close>

definition kept :: "world \<Rightarrow> world \<Rightarrow> bool" where
  "kept s s' \<longleftrightarrow>
     isAdmin s' = isAdmin s \<and> users s' = users s \<and> clients s' = clients s \<and>
     contestants s' = contestants s \<and> error_frames s' = error_frames s \<and>
     rejections s \<le> rejections s'"

definition store_kept :: "world \<Rightarrow> world \<Rightarrow> bool" where
  "store_kept s s' \<longleftrightarrow>
     votes s' = votes s \<and> counts s' = counts s \<and> currentRound s' = currentRound s"

text \<open>The counters after a vote that replaces the active choice \<open>prev\<close> by \<open>c\<close>.\<close>

definition after_vote_counts :: "string option \<Rightarrow> nat \<Rightarrow> string \<Rightarrow> (nat \<times> string \<rightharpoonup> int) \<Rightarrow> (nat \<times> string \<rightharpoonup> int)" where
  "after_vote_counts prev r c m =
     (let m1 = (case prev of
                  None \<Rightarrow> m
                | Some p \<Rightarrow> if p \<noteq> [] then m((r, p) \<mapsto> parse_count (m (r, p)) - 1) else m)
      in m1((r, c) \<mapsto> parse_count (m1 (r, c)) + 1))"

text \<open>A verifier that accepts one token, for the examples.\<close>

definition demo_verify :: "string \<Rightarrow> bool option" where
  "demo_verify t = (if t = ''admin-jwt'' then Some True else None)"

definition demo_catalog :: "contestant list" where
  "demo_catalog = [\<lparr>c_id = JStr ''A'', c_name = ''Ann''\<rparr>, \<lparr>c_id = JStr ''B'', c_name = ''Bob''\<rparr>]"

text \<open>
  A state for the examples: round 0, catalog \<open>A\<close>, \<open>B\<close>, two open connections, connection 3
  identified as an admin and connection 4 as a voter, an empty store that never fails.
\<close>

definition demo_world :: world where
  "demo_world =
     (init_world demo_catalog)
       \<lparr>users := [3 \<mapsto> JStr ''root'', 4 \<mapsto> JStr ''vera''],
        isAdmin := (\<lambda>c. c = 3), clients := [3, 4]\<rparr>"

text \<open>The example state after the voter on connection 4 has voted for \<open>A\<close> at time 10.\<close>

definition demo_voted :: world where
  "demo_voted = on_message demo_verify 10 4 (Some (Vote (JStr ''A''))) demo_world"

text \<open>
  The events that lead from the start to a state like the example's: both connections
  open and identify. In \<open>demo_events\<close> the voter then votes for \<open>A\<close> at time 10.
\<close>

definition demo_session :: "(nat \<times> event) list" where
  "demo_session =
     [(1, Connection 3), (2, Message 3 (Some (Identify (JStr ''root'') (Some ''admin-jwt'')))),
      (3, Connection 4), (4, Message 4 (Some (Identify (JStr ''vera'') None)))]"

definition demo_events :: "(nat \<times> event) list" where
  "demo_events = demo_session @ [(10, Message 4 (Some (Vote (JStr ''A''))))]"


definition active_in_round :: "nat \<Rightarrow> world \<Rightarrow> nat \<Rightarrow> nat" where
  "active_in_round now s r = length (filter (\<lambda>((r', u), (v, e)). r' = r \<and> now < e) (votes s))"





section \<open>A store that answers\<close>

lemma store_call_ok: "avail s = None \<Longrightarrow> store_call s = Some s"
  by (simp add: store_call_def)

lemma redis_get_user_ok:
  "avail s = None \<Longrightarrow> redis_get_user now k s = Resolves (vote_lookup now (votes s) k) s"
  by (simp add: redis_get_user_def store_call_ok)

lemma redis_set_user_ok:
  "avail s = None \<Longrightarrow>
   redis_set_user now k v s = Resolves () (s\<lparr>votes := AList.update k (v, now + 60 * 60) (votes s)\<rparr>)"
  by (simp add: redis_set_user_def store_call_ok)

lemma redis_get_count_ok:
  "avail s = None \<Longrightarrow> redis_get_count k s = Resolves (counts s k) s"
  by (simp add: redis_get_count_def store_call_ok)

lemma redis_incr_ok:
  "avail s = None \<Longrightarrow>
   redis_incr k s = Resolves () (s\<lparr>counts := (counts s)(k \<mapsto> parse_count (counts s k) + 1)\<rparr>)"
  by (simp add: redis_incr_def store_call_ok)

lemma redis_decr_ok:
  "avail s = None \<Longrightarrow>
   redis_decr k s = Resolves () (s\<lparr>counts := (counts s)(k \<mapsto> parse_count (counts s k) - 1)\<rparr>)"
  by (simp add: redis_decr_def store_call_ok)

lemma redis_del_ok:
  "avail s = None \<Longrightarrow> redis_del k s = Resolves () (s\<lparr>counts := (counts s)(k := None)\<rparr>)"
  by (simp add: redis_del_def store_call_ok)

lemma collectVoteCounts_ok:
  "avail s = None \<Longrightarrow>
   collectVoteCounts cs acc s =
     Resolves (acc @ map (\<lambda>c. (to_str (c_id c), tally s (currentRound s) (to_str (c_id c)))) cs) s"
  by (induction cs arbitrary: acc) (simp_all add: redis_get_count_ok tally_def)

lemma broadcastVoteCounts_ok:
  "avail s = None \<Longrightarrow>
   broadcastVoteCounts s = Resolves () (broadcast (VoteUpdate (getTally s (currentRound s))) s)"
  by (simp add: broadcastVoteCounts_def collectVoteCounts_ok await_def getTally_def)

lemma vote_effect:
  fixes verify now ws cid s uuid
  assumes "avail s = None" "users s ws = Some uuid" "truthy uuid"
  defines "s' \<equiv> on_message verify now ws (Some (Vote cid)) s"
  defines "k \<equiv> (currentRound s, to_str uuid)"
  defines "prev \<equiv> vote_lookup now (votes s) k"
  shows "votes s' = (if strict_eq prev cid then votes s
                     else AList.update k (to_str cid, now + 60 * 60) (votes s))"
    and "counts s' = (if strict_eq prev cid then counts s
                      else after_vote_counts prev (currentRound s) (to_str cid) (counts s))"
    and "currentRound s' = currentRound s" and "avail s' = None"
    and "contestants s' = contestants s" and "users s' = users s" and "isAdmin s' = isAdmin s"
    and "clients s' = clients s" and "rejections s' = rejections s"
  using assms(1-3) unfolding s'_def k_def prev_def
  by (auto simp: on_message_def message_handler_def handleVote_def Let_def await_def
      redis_get_user_ok redis_set_user_ok redis_incr_ok redis_decr_ok broadcastVoteCounts_ok
      detached_def send_def broadcast_def after_vote_counts_def split: option.splits)

section \<open>What no handler touches\<close>

lemma kept_refl [simp]: "kept s s"
  by (simp add: kept_def)

lemma kept_trans: "kept s s1 \<Longrightarrow> kept s1 s2 \<Longrightarrow> kept s s2"
  by (simp add: kept_def)

lemma world_of_simps [simp]: "world_of (Rejects s) = s" "world_of (Resolves a s) = s"
  by (simp_all add: world_of_def)

lemma store_call_kept: "store_call s = Some s' \<Longrightarrow> kept s s'"
  by (auto simp: store_call_def kept_def error_frames_def split: option.splits nat.splits)

lemma redis_get_user_kept: "kept s (world_of (redis_get_user now k s))"
  by (auto simp: redis_get_user_def dest: store_call_kept split: option.splits)

lemma redis_get_count_kept: "kept s (world_of (redis_get_count k s))"
  by (auto simp: redis_get_count_def dest: store_call_kept split: option.splits)

lemma redis_set_user_kept: "kept s (world_of (redis_set_user now k v s))"
  by (auto simp: redis_set_user_def kept_def error_frames_def dest!: store_call_kept split: option.splits)

lemma redis_incr_kept: "kept s (world_of (redis_incr k s))"
  by (auto simp: redis_incr_def kept_def error_frames_def dest!: store_call_kept split: option.splits)

lemma redis_decr_kept: "kept s (world_of (redis_decr k s))"
  by (auto simp: redis_decr_def kept_def error_frames_def dest!: store_call_kept split: option.splits)

lemma redis_del_kept: "kept s (world_of (redis_del k s))"
  by (auto simp: redis_del_def kept_def error_frames_def dest!: store_call_kept split: option.splits)

lemma await_kept:
  assumes "kept s (world_of p)" and "\<And>a s1. kept s1 (world_of (f a s1))"
  shows "kept s (world_of (await p f))"
proof (cases p)
  case (Rejects s')
  with assms(1) show ?thesis by (simp add: await_def)
next
  case (Resolves a s')
  with assms(1) assms(2)[of s' a] show ?thesis by (auto simp: await_def intro: kept_trans)
qed

lemma send_kept: "\<not> is_error m \<Longrightarrow> kept s (send ws m s)"
  by (simp add: send_def kept_def error_frames_def)

lemma broadcast_kept: "\<not> is_error m \<Longrightarrow> kept s (broadcast m s)"
  by (simp add: broadcast_def kept_def error_frames_def)

lemma detached_kept: "kept s (world_of p) \<Longrightarrow> kept s (detached p)"
  by (cases p) (auto simp: detached_def kept_def error_frames_def)

lemma collectVoteCounts_kept: "kept s (world_of (collectVoteCounts cs acc s))"
proof (induction cs arbitrary: acc s)
  case Nil
  show ?case by simp
next
  case (Cons c cs)
  show ?case
  proof (cases "redis_get_count (currentRound s, to_str (c_id c)) s")
    case (Rejects s')
    with redis_get_count_kept[of s "(currentRound s, to_str (c_id c))"] show ?thesis by simp
  next
    case (Resolves count s')
    with redis_get_count_kept[of s "(currentRound s, to_str (c_id c))"] Cons.IH[of s']
    show ?thesis by (auto intro: kept_trans)
  qed
qed

lemma broadcastVoteCounts_kept: "kept s (world_of (broadcastVoteCounts s))"
  unfolding broadcastVoteCounts_def
  by (rule await_kept) (simp_all add: collectVoteCounts_kept broadcast_kept)

lemma broadcast_after_send_kept:
  "\<not> is_error m \<Longrightarrow> kept s (world_of (broadcastVoteCounts (send ws m s)))"
  by (rule kept_trans[OF send_kept broadcastVoteCounts_kept])

lemma handleVote_kept: "kept s (world_of (handleVote now ws contestantId uuid s))"
  unfolding handleVote_def Let_def
  by (auto intro!: await_kept detached_kept send_kept redis_get_user_kept redis_decr_kept
      redis_set_user_kept redis_incr_kept broadcast_after_send_kept split: option.splits)

lemma get_vote_counts_kept: "kept s (world_of (get_vote_counts ws s))"
  unfolding get_vote_counts_def
  by (rule await_kept) (simp_all add: collectVoteCounts_kept send_kept)

lemma get_my_vote_kept: "kept s (world_of (get_my_vote now ws uuid s))"
  unfolding get_my_vote_def
  by (rule await_kept) (simp_all add: redis_get_user_kept send_kept)

lemma del_contestants_kept: "kept s (world_of (del_contestants round cs s))"
proof (induction cs arbitrary: s)
  case Nil
  show ?case by simp
next
  case (Cons c cs)
  show ?case
  proof (cases "redis_del (round, to_str (c_id c)) s")
    case (Rejects s')
    with redis_del_kept[of s "(round, to_str (c_id c))"] show ?thesis by simp
  next
    case (Resolves u s')
    with redis_del_kept[of s "(round, to_str (c_id c))"] Cons.IH[of s']
    show ?thesis by (auto intro: kept_trans)
  qed
qed

lemma del_rounds_kept: "kept s (world_of (del_rounds rounds s))"
proof (induction rounds arbitrary: s)
  case Nil
  show ?case by simp
next
  case (Cons round rounds)
  show ?case
  proof (cases "del_contestants round (contestants s) s")
    case (Rejects s')
    with del_contestants_kept[of s round "contestants s"] show ?thesis by simp
  next
    case (Resolves u s')
    with del_contestants_kept[of s round "contestants s"] Cons.IH[of s']
    show ?thesis by (auto intro: kept_trans)
  qed
qed

lemma reset_votes_kept: "kept s (world_of (reset_votes s))"
  unfolding reset_votes_def
  by (rule await_kept) (simp_all add: del_rounds_kept detached_kept broadcastVoteCounts_kept)

lemma next_round_kept: "kept s (world_of (next_round s))"
proof -
  have "kept s (broadcast (RoundUpdate (currentRound s + 1)) (s\<lparr>currentRound := currentRound s + 1\<rparr>))"
    by (simp add: broadcast_def kept_def error_frames_def)
  then show ?thesis
    unfolding next_round_def Let_def
    by (auto intro: kept_trans detached_kept broadcastVoteCounts_kept)
qed

text \<open>Every dispatched handler leaves roles, sessions and the error frames alone.\<close>

lemma dispatch_kept:
  assumes "users s ws = Some uuid"
    and "\<not> ((req = NextRound \<or> req = ResetVotes) \<and> \<not> isAdmin s ws)"
    and "\<And>u t. req \<noteq> Identify u t"
  shows "kept s (on_message verify now ws (Some req) s)"
  using assms
  by (cases req)
    (auto simp: on_message_def message_handler_def intro!: detached_kept handleVote_kept
      get_vote_counts_kept get_my_vote_kept next_round_kept reset_votes_kept)

lemma identify_isAdmin:
  "isAdmin (identify verify ws uuid token s) c \<longleftrightarrow>
     isAdmin s c \<or> (c = ws \<and> (\<exists>t. token = Some t \<and> t \<noteq> [] \<and> verify t = Some True))"
  by (auto simp: identify_def Let_def send_def split: option.splits bool.splits)

lemma identify_fields:
  "users (identify verify ws uuid token s) = (users s)(ws \<mapsto> uuid)"
  "votes (identify verify ws uuid token s) = votes s"
  "counts (identify verify ws uuid token s) = counts s"
  "currentRound (identify verify ws uuid token s) = currentRound s"
  "contestants (identify verify ws uuid token s) = contestants s"
  "clients (identify verify ws uuid token s) = clients s"
  "avail (identify verify ws uuid token s) = avail s"
  "rejections (identify verify ws uuid token s) = rejections s"
  "sent (identify verify ws uuid token s) =
     sent s @ [(ws, Welcome uuid (contestants s) (currentRound s)
                      (isAdmin (identify verify ws uuid token s) ws))]"
  by (auto simp: identify_def Let_def send_def split: option.splits bool.splits)

lemma on_message_identify:
  "on_message verify now ws (Some (Identify uuid token)) s = identify verify ws uuid token s"
  by (simp add: on_message_def message_handler_def detached_def)

lemma on_message_isAdmin:
  assumes "isAdmin s c"
  shows "isAdmin (on_message verify now ws parsed s) c"
proof (cases parsed)
  case None
  with assms show ?thesis by (simp add: on_message_def message_handler_def detached_def)
next
  case (Some req)
  show ?thesis
  proof (cases "\<exists>u t. req = Identify u t")
    case True
    with Some assms show ?thesis
      by (auto simp: on_message_identify identify_isAdmin)
  next
    case notid: False
    show ?thesis
    proof (cases "users s ws")
      case None
      with Some assms notid show ?thesis
        by (cases req) (simp_all add: on_message_def message_handler_def detached_def)
    next
      case (Some uuid)
      show ?thesis
      proof (cases "(req = NextRound \<or> req = ResetVotes) \<and> \<not> isAdmin s ws")
        case True
        with Some \<open>parsed = Some req\<close> assms show ?thesis
          by (auto simp: on_message_def message_handler_def detached_def send_def)
      next
        case False
        from dispatch_kept[OF Some False, of verify now] notid
        have "kept s (on_message verify now ws (Some req) s)" by blast
        with assms \<open>parsed = Some req\<close> show ?thesis by (simp add: kept_def)
      qed
    qed
  qed
qed

lemma store_call_store_kept: "store_call s = Some s' \<Longrightarrow> store_kept s s'"
  by (auto simp: store_call_def store_kept_def split: option.splits nat.splits)

lemma collectVoteCounts_store_kept: "store_kept s (world_of (collectVoteCounts cs acc s))"
proof (induction cs arbitrary: acc s)
  case Nil
  show ?case by (simp add: store_kept_def)
next
  case (Cons c cs)
  show ?case
  proof (cases "store_call s")
    case None
    then show ?thesis by (simp add: redis_get_count_def store_kept_def)
  next
    case (Some s')
    with store_call_store_kept[OF Some] Cons.IH[of s'] show ?thesis
      by (simp add: redis_get_count_def store_kept_def)
  qed
qed

lemma broadcastVoteCounts_store_kept: "store_kept s (detached (broadcastVoteCounts s))"
proof (cases "collectVoteCounts (contestants s) [] s")
  case (Rejects s')
  with collectVoteCounts_store_kept[of s "contestants s" "[]"] show ?thesis
    by (simp add: broadcastVoteCounts_def await_def detached_def store_kept_def)
next
  case (Resolves vc s')
  with collectVoteCounts_store_kept[of s "contestants s" "[]"] show ?thesis
    by (simp add: broadcastVoteCounts_def await_def detached_def store_kept_def broadcast_def)
qed

lemma on_message_next_round:
  assumes "users s ws = Some uuid" and "isAdmin s ws"
  shows "store_kept (s\<lparr>currentRound := currentRound s + 1\<rparr>)
           (on_message verify now ws (Some NextRound) s)"
proof -
  let ?s2 = "broadcast (RoundUpdate (currentRound s + 1)) (s\<lparr>currentRound := currentRound s + 1\<rparr>)"
  have "on_message verify now ws (Some NextRound) s = detached (broadcastVoteCounts ?s2)"
    using assms by (simp add: on_message_def message_handler_def next_round_def Let_def detached_def)
  moreover have "store_kept ?s2 (detached (broadcastVoteCounts ?s2))"
    by (rule broadcastVoteCounts_store_kept)
  ultimately show ?thesis by (simp add: store_kept_def broadcast_def)
qed

section \<open>The effect of each message on a store that answers\<close>



lemma getTally_cong:
  "counts s' = counts s \<Longrightarrow> contestants s' = contestants s \<Longrightarrow> getTally s' r = getTally s r"
  by (simp add: getTally_def tally_def)


lemma del_contestants_ok:
  "avail s = None \<Longrightarrow>
   del_contestants round cs s =
     Resolves () (s\<lparr>counts := fold (\<lambda>c m. m((round, to_str (c_id c)) := None)) cs (counts s)\<rparr>)"
  by (induction cs arbitrary: s) (simp_all add: redis_del_ok)

lemma del_rounds_ok:
  "avail s = None \<Longrightarrow>
   del_rounds rounds s =
     Resolves () (s\<lparr>counts :=
        fold (\<lambda>round. fold (\<lambda>c m. m((round, to_str (c_id c)) := None)) (contestants s))
          rounds (counts s)\<rparr>)"
  by (induction rounds arbitrary: s) (simp_all add: del_contestants_ok)

lemma fold_del_contestants:
  "fold (\<lambda>c m. m((round, to_str (c_id c)) := None)) cs m (r, x) =
     (if r = round \<and> x \<in> (\<lambda>c. to_str (c_id c)) ` set cs then None else m (r, x))"
  by (induction cs arbitrary: m) auto

lemma fold_del_rounds:
  "fold (\<lambda>round. fold (\<lambda>c m. m((round, to_str (c_id c)) := None)) cs) rounds m (r, x) =
     (if r \<in> set rounds \<and> x \<in> (\<lambda>c. to_str (c_id c)) ` set cs then None else m (r, x))"
  by (induction rounds arbitrary: m) (auto simp: fold_del_contestants)

lemma reset_votes_effect:
  fixes verify now ws s uuid
  assumes "avail s = None" "users s ws = Some uuid" "isAdmin s ws"
  defines "s' \<equiv> on_message verify now ws (Some ResetVotes) s"
  shows "counts s' (r, x) =
           (if r \<le> currentRound s \<and> x \<in> (\<lambda>c. to_str (c_id c)) ` set (contestants s) then None
            else counts s (r, x))"
    and "votes s' = votes s" and "currentRound s' = currentRound s" and "avail s' = None"
    and "contestants s' = contestants s" and "users s' = users s" and "isAdmin s' = isAdmin s"
    and "clients s' = clients s" and "rejections s' = rejections s"
    and "sent s' = sent s @ map (\<lambda>client. (client, VoteUpdate (getTally s' (currentRound s)))) (clients s)"
proof -
  define m where "m = fold (\<lambda>round. fold (\<lambda>c m. m((round, to_str (c_id c)) := None)) (contestants s))
          [0 ..< currentRound s + 1] (counts s)"
  have eq: "s' = broadcast (VoteUpdate (getTally (s\<lparr>counts := m\<rparr>) (currentRound s))) (s\<lparr>counts := m\<rparr>)"
    using assms(1-3) unfolding s'_def m_def
    by (simp add: on_message_def message_handler_def reset_votes_def await_def del_rounds_ok
        broadcastVoteCounts_ok detached_def del: upt_Suc)
  have "m (r, x) = (if r \<le> currentRound s \<and> x \<in> (\<lambda>c. to_str (c_id c)) ` set (contestants s) then None
            else counts s (r, x))"
    unfolding m_def fold_del_rounds by auto
  then show "counts s' (r, x) =
           (if r \<le> currentRound s \<and> x \<in> (\<lambda>c. to_str (c_id c)) ` set (contestants s) then None
            else counts s (r, x))"
    by (simp add: eq broadcast_def)
  show "votes s' = votes s" and "currentRound s' = currentRound s" and "avail s' = None"
    and "contestants s' = contestants s" and "users s' = users s" and "isAdmin s' = isAdmin s"
    and "clients s' = clients s" and "rejections s' = rejections s"
    using assms(1) by (simp_all add: eq broadcast_def)
  have "getTally s' (currentRound s) = getTally (s\<lparr>counts := m\<rparr>) (currentRound s)"
    by (rule getTally_cong) (simp_all add: eq broadcast_def)
  then show "sent s' = sent s @ map (\<lambda>client. (client, VoteUpdate (getTally s' (currentRound s)))) (clients s)"
    by (simp add: eq broadcast_def)
qed

lemma get_my_vote_effect:
  assumes "avail s = None" "users s ws = Some uuid"
  shows "on_message verify now ws (Some GetMyVote) s =
           send ws (MyVote (getMyVote now s (currentRound s) uuid)) s"
  using assms
  by (simp add: on_message_def message_handler_def get_my_vote_def await_def redis_get_user_ok
      detached_def getMyVote_def)

lemma tally_after_vote_counts:
  "parse_count (after_vote_counts prev r c m (r', x)) =
     parse_count (m (r', x))
       + (if r' = r \<and> x = c then 1 else 0)
       - (if r' = r \<and> prev = Some x \<and> x \<noteq> [] then 1 else 0)"
  by (auto simp: after_vote_counts_def Let_def parse_count_def split: option.splits)


lemma count_after_update:
  "distinct (map fst al) \<Longrightarrow>
   int (length (filter P (AList.update k v al))) =
     int (length (filter P al)) + (if P (k, v) then 1 else 0)
       - (case map_of al k of None \<Rightarrow> 0 | Some v0 \<Rightarrow> if P (k, v0) then 1 else 0)"
proof (induction al)
  case Nil
  then show ?case by simp
next
  case (Cons p ps)
  obtain k' v' where p: "p = (k', v')" by (cases p)
  show ?case
  proof (cases "k' = k")
    case True
    with p show ?thesis by simp
  next
    case False
    with p Cons show ?thesis by simp
  qed
qed



section \<open>Evaluating the examples\<close>

lemmas handler_defs =
  on_message_def message_handler_def handleVote_def get_vote_counts_def get_my_vote_def
  next_round_def reset_votes_def broadcastVoteCounts_def identify_def await_def detached_def
  send_def broadcast_def redis_get_user_def redis_set_user_def redis_get_count_def
  redis_incr_def redis_decr_def redis_del_def store_call_def vote_lookup_def parse_count_def
  Let_def

lemmas example_defs =
  demo_world_def demo_catalog_def demo_verify_def init_world_def tally_def getTally_def getMyVote_def
  active_votes_def


lemma demo_voted_fields:
  "avail demo_voted = None" "users demo_voted 3 = Some (JStr ''root'')" "isAdmin demo_voted 3"
  "users demo_voted 4 = Some (JStr ''vera'')" "currentRound demo_voted = 0"
  "votes demo_voted = [((0, ''vera''), (''A'', 3610))]"
  "counts demo_voted = [(0, ''A'') \<mapsto> 1]"
  by (simp_all add: demo_voted_def handler_defs example_defs)

section \<open>Invariants of the store\<close>




lemma vote_lookup_Some:
  "vote_lookup now vs k = Some x \<Longrightarrow> \<exists>e. map_of vs k = Some (x, e) \<and> now < e"
  by (auto simp: vote_lookup_def split: option.splits if_splits)










text \<open>
  A switch away from a non-empty active choice \<open>A\<close> to another id \<open>B\<close>: the tally of \<open>A\<close>
  loses 1, that of \<open>B\<close> gains 1, no other tally changes, and the round has as many active
  records as before.
\<close>

lemma vote_switch_delta:
  fixes verify now ws s uuid A B
  defines "s' \<equiv> on_message verify now ws (Some (Vote B)) s"
  assumes "avail s = None" and "users s ws = Some uuid" and "truthy uuid"
    and "getMyVote now s (currentRound s) uuid = Some A" and "A \<noteq> []" and "to_str B \<noteq> A"
    and "distinct (map fst (votes s))"
  shows "tally s' (currentRound s) A = tally s (currentRound s) A - 1 \<and>
         tally s' (currentRound s) (to_str B) = tally s (currentRound s) (to_str B) + 1 \<and>
         (\<forall>r c. (r, c) \<noteq> (currentRound s, A) \<and> (r, c) \<noteq> (currentRound s, to_str B) \<longrightarrow>
            tally s' r c = tally s r c) \<and>
         active_in_round now s' (currentRound s) = active_in_round now s (currentRound s)"
proof -
  from assms(5) have prev: "vote_lookup now (votes s) (currentRound s, to_str uuid) = Some A"
    by (simp add: getMyVote_def)
  with assms(7) have ns: "\<not> strict_eq (vote_lookup now (votes s) (currentRound s, to_str uuid)) B"
    by (cases B) auto
  note eff = vote_effect[OF assms(2-4), where verify=verify and now=now and cid=B, folded s'_def]
  have t: "tally s' r c = tally s r c + (if r = currentRound s \<and> c = to_str B then 1 else 0)
      - (if r = currentRound s \<and> c = A then 1 else 0)" for r c
    using ns assms(6) by (simp add: tally_def eff(2) prev tally_after_vote_counts)
  from vote_lookup_Some[OF prev] obtain e where e: "map_of (votes s) (currentRound s, to_str uuid) = Some (A, e)"
    "now < e" by blast
  have "int (active_in_round now s' (currentRound s)) = int (active_in_round now s (currentRound s))"
    using ns e unfolding active_in_round_def eff(1)
    by (simp add: count_after_update[OF assms(8)])
  with t assms(7) show ?thesis by auto
qed

lemmas demo_run_defs = demo_events_def demo_session_def on_connection_def on_close_def

section \<open>Round advance\<close>

text \<open>
  C7. A \<open>next_round\<close> message from an identified admin connection increments the current
  round by exactly 1 and leaves the whole store as it was: no vote record and no counter
  of any round changes, so every tally reads as before. This holds whether or not the
  store answers the tally broadcast that follows.
\<close>

theorem next_round_increments_and_keeps_tallies:
  assumes "users s ws = Some uuid" and "isAdmin s ws"
  shows "currentRound (on_message verify now ws (Some NextRound) s) = currentRound s + 1 \<and>
         votes (on_message verify now ws (Some NextRound) s) = votes s \<and>
         counts (on_message verify now ws (Some NextRound) s) = counts s \<and>
         tally (on_message verify now ws (Some NextRound) s) r c = tally s r c"
  using on_message_next_round[OF assms, of verify now] by (simp add: store_kept_def tally_def)

theorem next_round_increments_and_keeps_tallies_witness:
  "users (demo_world\<lparr>currentRound := 4, counts := [(2, ''k'') \<mapsto> 5]\<rparr>) 3 = Some (JStr ''root'') \<and>
   isAdmin (demo_world\<lparr>currentRound := 4, counts := [(2, ''k'') \<mapsto> 5]\<rparr>) 3 \<and>
   currentRound (on_message demo_verify 7 3 (Some NextRound)
      (demo_world\<lparr>currentRound := 4, counts := [(2, ''k'') \<mapsto> 5]\<rparr>)) = 5 \<and>
   tally (on_message demo_verify 7 3 (Some NextRound)
      (demo_world\<lparr>currentRound := 4, counts := [(2, ''k'') \<mapsto> 5]\<rparr>)) 2 ''k'' = 5"
  using next_round_increments_and_keeps_tallies[of
      "demo_world\<lparr>currentRound := 4, counts := [(2, ''k'') \<mapsto> 5]\<rparr>" 3 "JStr ''root''"
      demo_verify 7 2 "''k''"]
  by (simp add: demo_world_def init_world_def tally_def parse_count_def)

section \<open>Authorization\<close>

text \<open>
  C8. On an identified connection whose role is not admin, a \<open>next_round\<close> or
  \<open>reset_votes\<close> message has exactly one effect: the frame \<open>error{message: "Unauthorized"}\<close>
  is sent to that connection. The round, the vote records, the counters and everything
  else stay as they were.
\<close>

theorem unauthorized_rejected:
  assumes "users s ws = Some uuid" and "\<not> isAdmin s ws" and "req = NextRound \<or> req = ResetVotes"
  shows "on_message verify now ws (Some req) s = s\<lparr>sent := sent s @ [(ws, ErrorMsg ''Unauthorized'')]\<rparr>"
  using assms by (auto simp: on_message_def message_handler_def detached_def send_def)

theorem unauthorized_rejected_witness:
  "users demo_world 4 = Some (JStr ''vera'') \<and> \<not> isAdmin demo_world 4 \<and>
   on_message demo_verify 7 4 (Some ResetVotes) demo_world =
     demo_world\<lparr>sent := sent demo_world @ [(4, ErrorMsg ''Unauthorized'')]\<rparr>"
  using unauthorized_rejected[of demo_world 4 "JStr ''vera''" ResetVotes demo_verify 7]
  by (simp add: demo_world_def init_world_def)

section \<open>The admin role\<close>

lemma run_isAdmin:
  "isAdmin s ws \<Longrightarrow> \<forall>(now, ev) \<in> set evs. ev \<noteq> Connection ws \<Longrightarrow> isAdmin (run verify evs s) ws"
proof (induction evs arbitrary: s)
  case Nil
  then show ?case by simp
next
  case (Cons e evs)
  obtain now ev where e: "e = (now, ev)" by (cases e)
  from Cons.prems e have "ev \<noteq> Connection ws" by simp
  with Cons.prems(1) have "isAdmin (step verify (now, ev) s) ws"
    by (cases ev) (simp_all add: on_message_isAdmin on_connection_def on_close_def)
  with Cons e show ?case by simp
qed

text \<open>
  C10. Once an \<open>identify\<close> with a token the verifier accepts as admin has been handled on
  a connection, the connection's role is admin, it stays admin through every later event
  on any connection (messages and closes; a new socket is another connection), and a later
  \<open>identify\<close> on it, with any user id and any token or none, rebinds the user id and is
  answered with a \<open>welcome\<close> whose \<open>isAdmin\<close> is true.
\<close>

theorem admin_role_sticky:
  fixes verify t ws uuid uuid' token' evs s now0 now1
  assumes "t \<noteq> []" and "verify t = Some True"
    and "\<forall>(now, ev) \<in> set evs. ev \<noteq> Connection ws"
  defines "s1 \<equiv> on_message verify now0 ws (Some (Identify uuid (Some t))) s"
  defines "s2 \<equiv> run verify evs s1"
  defines "s3 \<equiv> on_message verify now1 ws (Some (Identify uuid' token')) s2"
  shows "isAdmin s1 ws \<and> isAdmin s2 ws \<and> isAdmin s3 ws \<and> users s3 ws = Some uuid' \<and>
         sent s3 = sent s2 @ [(ws, Welcome uuid' (contestants s2) (currentRound s2) True)]"
proof -
  have a1: "isAdmin s1 ws"
    using assms(1,2) by (simp add: s1_def on_message_identify identify_isAdmin)
  then have a2: "isAdmin s2 ws"
    unfolding s2_def using assms(3) by (rule run_isAdmin)
  then have a3: "isAdmin s3 ws"
    by (simp add: s3_def on_message_identify identify_isAdmin)
  then show ?thesis
    using a1 a2 by (simp add: s3_def on_message_identify identify_fields)
qed

theorem admin_role_sticky_witness:
  "''admin-jwt'' \<noteq> [] \<and> demo_verify ''admin-jwt'' = Some True \<and>
   Connection 1 \<notin> snd ` set [(3, Message 1 (Some (Identify (JStr ''x'') (Some ''bad'')))), (4, Close 1)] \<and>
   isAdmin (on_message demo_verify 9 1 (Some (Identify (JStr ''y'') None))
     (run demo_verify
        [(3, Message 1 (Some (Identify (JStr ''x'') (Some ''bad'')))), (4, Close 1)]
        (on_message demo_verify 2 1 (Some (Identify (JStr ''x'') (Some ''admin-jwt'')))
           (on_connection 1 (init_world []))))) 1"
  using admin_role_sticky[of "''admin-jwt''" demo_verify
      "[(3, Message 1 (Some (Identify (JStr ''x'') (Some ''bad'')))), (4, Close 1)]" 1
      2 "JStr ''x''" "on_connection 1 (init_world [])" 9 "JStr ''y''" None]
  by (simp add: demo_verify_def)

section \<open>Reset\<close>

text \<open>
  C6. When an identified admin connection sends \<open>reset_votes\<close> and the store answers, then
  afterwards, for every round from 0 through the current round and every contestant of the
  catalog, the tally reads 0; no vote record is touched, so a reader of \<open>my vote\<close> gets, for
  every round and voter, what they would have got without the reset: a \<open>get_my_vote\<close> after
  the reset is answered with the voter's choice from before it.
\<close>

theorem reset_votes_zeroes_tallies_keeps_ledger:
  fixes verify now ws s uuid
  assumes "avail s = None" and "users s ws = Some uuid" and "isAdmin s ws"
  defines "s' \<equiv> on_message verify now ws (Some ResetVotes) s"
  shows "(\<forall>r \<le> currentRound s. \<forall>c \<in> set (contestants s). tally s' r (to_str (c_id c)) = 0) \<and>
         (\<forall>r \<le> currentRound s. getTally s' r = map (\<lambda>c. (to_str (c_id c), 0)) (contestants s)) \<and>
         votes s' = votes s \<and>
         (\<forall>t r u. getMyVote t s' r u = getMyVote t s r u) \<and>
         (\<forall>ws2 u2 t. users s ws2 = Some u2 \<longrightarrow>
            sent (on_message verify t ws2 (Some GetMyVote) s') =
              sent s' @ [(ws2, MyVote (getMyVote t s (currentRound s) u2))])"
proof -
  note eff = reset_votes_effect[OF assms(1-3), of verify now, folded s'_def]
  have zero: "tally s' r (to_str (c_id c)) = 0" if "r \<le> currentRound s" "c \<in> set (contestants s)" for r c
    using that by (simp add: tally_def eff(1) parse_count_def)
  have tal: "getTally s' r = map (\<lambda>c. (to_str (c_id c), 0)) (contestants s)" if "r \<le> currentRound s" for r
    using that zero by (simp add: getTally_def eff(5))
  have mine: "getMyVote t s' r u = getMyVote t s r u" for t r u
    by (simp add: getMyVote_def eff(2))
  have reply: "sent (on_message verify t ws2 (Some GetMyVote) s') =
              sent s' @ [(ws2, MyVote (getMyVote t s (currentRound s) u2))]"
    if "users s ws2 = Some u2" for ws2 u2 t
    using that get_my_vote_effect[of s' ws2 u2 verify t]
    by (simp add: eff(3,4,6) mine send_def)
  from zero tal mine reply eff(2) show ?thesis by blast
qed

theorem reset_votes_zeroes_tallies_keeps_ledger_witness:
  "avail demo_voted = None \<and> users demo_voted 3 = Some (JStr ''root'') \<and> isAdmin demo_voted 3 \<and>
   tally demo_voted 0 ''A'' = 1 \<and>
   getTally (on_message demo_verify 20 3 (Some ResetVotes) demo_voted) 0 = [(''A'', 0), (''B'', 0)] \<and>
   sent (on_message demo_verify 30 4 (Some GetMyVote)
          (on_message demo_verify 20 3 (Some ResetVotes) demo_voted)) =
     sent (on_message demo_verify 20 3 (Some ResetVotes) demo_voted) @ [(4, MyVote (Some ''A''))]"
proof -
  note th = reset_votes_zeroes_tallies_keeps_ledger[OF demo_voted_fields(1-3), of demo_verify 20]
  from th have "getTally (on_message demo_verify 20 3 (Some ResetVotes) demo_voted) 0 =
      map (\<lambda>c. (to_str (c_id c), 0)) (contestants demo_voted)"
    by blast
  moreover from th demo_voted_fields(4) have
    "sent (on_message demo_verify 30 4 (Some GetMyVote)
          (on_message demo_verify 20 3 (Some ResetVotes) demo_voted)) =
     sent (on_message demo_verify 20 3 (Some ResetVotes) demo_voted) @
       [(4, MyVote (getMyVote 30 demo_voted (currentRound demo_voted) (JStr ''vera'')))]"
    by blast
  moreover have "contestants demo_voted = contestants demo_world"
    by (simp add: demo_voted_def handler_defs example_defs)
  ultimately show ?thesis
    by (simp add: demo_voted_fields example_defs parse_count_def vote_lookup_def)
qed

section \<open>Voting\<close>






text \<open>
  C5 at the input where the code departs from it. The voter has voted for the empty
  contestant id: it is the voter's active record and it is counted once. The voter switches to \<open>B\<close>: the record now names \<open>B\<close> and
  the tally of \<open>B\<close> is 1, but the tally of the empty id is still 1, not 0, because the
  handler tests the previous id for truthiness before decrementing.
\<close>

theorem switch_from_empty_id_skips_decrement:
  "getMyVote 20 (run demo_verify (demo_session @ [(10, Message 4 (Some (Vote (JStr ''''))))])
      (init_world demo_catalog)) 0 (JStr ''vera'') = Some '''' \<and>
   tally (run demo_verify (demo_session @ [(10, Message 4 (Some (Vote (JStr ''''))))])
      (init_world demo_catalog)) 0 '''' = 1 \<and>
   getMyVote 20 (run demo_verify (demo_session @
        [(10, Message 4 (Some (Vote (JStr '''')))), (20, Message 4 (Some (Vote (JStr ''B''))))])
      (init_world demo_catalog)) 0 (JStr ''vera'') = Some ''B'' \<and>
   tally (run demo_verify (demo_session @
        [(10, Message 4 (Some (Vote (JStr '''')))), (20, Message 4 (Some (Vote (JStr ''B''))))])
      (init_world demo_catalog)) 0 '''' = 1 \<and>
   tally (run demo_verify (demo_session @
        [(10, Message 4 (Some (Vote (JStr '''')))), (20, Message 4 (Some (Vote (JStr ''B''))))])
      (init_world demo_catalog)) 0 ''B'' = 1"
  by (simp add: demo_run_defs handler_defs example_defs)

section \<open>A store that fails\<close>




section \<open>Tallies and vote records\<close>







end
